theory Spec2Isabelle
  imports Main "HOL-Library.Sublist" "HOL-Library.AList"
begin

section \<open>Strings and JSON values\<close>

text \<open>
  The bridge is a TypeScript program. Its strings are modelled as HOL strings; the
  characters of the model are the code units below 256. JSON values that travel in the
  arguments of a request are modelled by \<open>json\<close>; objects are association lists, read
  with \<open>map_of\<close> and written with \<open>AList.update\<close> (an assignment to an existing key
  keeps its position, a new key is appended, as in the source language).
\<close>

datatype json =
    JNull
  | JBool bool
  | JNumber int
  | JString string
  | JArray "json list"
  | JObject "(string \<times> json) list"

type_synonym jobject = "(string \<times> json) list"

definition slash :: char where
  "slash = CHR ''/''"

definition backslash :: char where
  "backslash = CHR 0x5C"

definition newline :: char where
  "newline = CHR 0x0A"

text \<open>\<open>startsWith\<close> of the source is \<open>prefix\<close> on lists.\<close>

abbreviation startsWith :: "string \<Rightarrow> string \<Rightarrow> bool" where
  "startsWith s p \<equiv> prefix p s"

section \<open>Path translation (bridge.ts, lines 45 to 63)\<close>

text \<open>
  Both \<open>unixToWslPath\<close> and \<open>extractProjectSubfolder\<close> start with
  \<^verbatim>\<open>replace(/\/@[^/]+\//, '/')\<close>: the leftmost occurrence of a slash, an at sign, one
  or more characters other than a slash, and a slash, is replaced by a single slash.
  \<open>matchVirtualSegment\<close> tries the pattern at the head of the string and returns what
  follows the match; \<open>replaceVirtualSegment\<close> scans for the leftmost match.
\<close>

definition matchVirtualSegment :: "string \<Rightarrow> string option" where
  "matchVirtualSegment s =
     (if startsWith s [slash, CHR ''@''] then
        (let name = takeWhile (\<lambda>c. c \<noteq> slash) (drop 2 s);
             rest = dropWhile (\<lambda>c. c \<noteq> slash) (drop 2 s)
         in if name \<noteq> [] \<and> rest \<noteq> [] then Some (tl rest) else None)
      else None)"

fun replaceVirtualSegment :: "string \<Rightarrow> string" where
  "replaceVirtualSegment [] = []"
| "replaceVirtualSegment (c # cs) =
     (case matchVirtualSegment (c # cs) of
        Some rest \<Rightarrow> slash # rest
      | None \<Rightarrow> c # replaceVirtualSegment cs)"

definition unixToWslPath :: "string \<Rightarrow> string" where
  "unixToWslPath unixPath =
     (let normalized = replaceVirtualSegment unixPath
      in ''//wsl.localhost/Ubuntu'' @ normalized)"

text \<open>
  \<^verbatim>\<open>normalized.match(/\/dev\/([^/]+)$/)\<close>: \<open>matchDevAt\<close> tries the pattern at the head
  of the string (the dollar sign is the end of the input, there is no multiline flag),
  \<open>searchDev\<close> tries every start position from the left and returns group 1.
\<close>

definition matchDevAt :: "string \<Rightarrow> string option" where
  "matchDevAt s =
     (if startsWith s ''/dev/'' \<and> drop 5 s \<noteq> [] \<and> slash \<notin> set (drop 5 s)
      then Some (drop 5 s) else None)"

fun searchDev :: "string \<Rightarrow> string option" where
  "searchDev [] = None"
| "searchDev (c # cs) =
     (case matchDevAt (c # cs) of
        Some name \<Rightarrow> Some name
      | None \<Rightarrow> searchDev cs)"

definition extractProjectSubfolder :: "string \<Rightarrow> string option" where
  "extractProjectSubfolder projectPath =
     (let normalized = replaceVirtualSegment projectPath
      in searchDev normalized)"

datatype pathClass = Wsl | Unix | Windows | Relative

definition isAsciiLetter :: "char \<Rightarrow> bool" where
  "isAsciiLetter c =
     (let n = (of_char c :: nat) in (65 \<le> n \<and> n \<le> 90) \<or> (97 \<le> n \<and> n \<le> 122))"

text \<open>The test \<^verbatim>\<open>/^[A-Za-z]:/\<close> of \<open>classifyPath\<close>.\<close>

fun driveLetterPrefix :: "string \<Rightarrow> bool" where
  "driveLetterPrefix (c # d # _) = (isAsciiLetter c \<and> d = CHR '':'')"
| "driveLetterPrefix _ = False"

definition classifyPath :: "string \<Rightarrow> pathClass" where
  "classifyPath p =
     (if p = [] then Relative
      else if startsWith p ''//wsl.localhost''
            \<or> startsWith p ([backslash, backslash] @ ''wsl.localhost'') then Wsl
      else if startsWith p ''/home/'' \<or> startsWith p ''/Users/'' \<or> startsWith p ''/tmp/''
        then Unix
      else if driveLetterPrefix p then Windows
      else Relative)"

section \<open>Requests, responses and the request rewriting (lines 31 to 92)\<close>

datatype ident = IdString string | IdNumber int

text \<open>
  \<open>params\<close> of a request is an object; its member \<open>arguments\<close> is used as an object
  (the source casts it to a record of unknown values), the other members are kept in
  \<open>members\<close>.
\<close>

record MCPParams =
  arguments :: "jobject option"
  members :: jobject

record MCPRequest =
  reqId :: "ident option"
  reqMethod :: string
  params :: "MCPParams option"

record MCPResponse =
  respId :: "ident option"
  result :: "json option"
  error :: "(int \<times> string) option"

definition relativePathKeys :: "string list" where
  "relativePathKeys =
     [''directoryPath'', ''filePath'', ''pathInProject'', ''path'',
      ''subDirectoryRelativePath'', ''directoryToSearch'', ''file_path'']"

text \<open>
  The body of the loop over \<open>relativePathKeys\<close> (lines 81 to 87). The test
  \<^verbatim>\<open>args[key] && typeof args[key] === 'string'\<close> holds for a string that is not empty.
  The calls of \<open>log\<close> write diagnostics only and are left out.
\<close>

definition prependKey :: "string \<Rightarrow> jobject \<Rightarrow> string \<Rightarrow> jobject" where
  "prependKey projectSubfolder args key =
     (case map_of args key of
        Some (JString val) \<Rightarrow>
          if val \<noteq> [] \<and> \<not> startsWith val [slash] \<and> \<not> startsWith val projectSubfolder
          then AList.update key (JString (projectSubfolder @ [slash] @ val)) args
          else args
      | _ \<Rightarrow> args)"

text \<open>
  What one round of that loop does to the value stored under its key: \<open>None\<close> is a key
  that is absent. \<open>prependKey_value\<close> below relates the two.
\<close>

definition prependValue :: "string \<Rightarrow> json option \<Rightarrow> json option" where
  "prependValue projectSubfolder v =
     (case v of
        Some (JString val) \<Rightarrow>
          if val \<noteq> [] \<and> \<not> startsWith val [slash] \<and> \<not> startsWith val projectSubfolder
          then Some (JString (projectSubfolder @ [slash] @ val))
          else v
      | _ \<Rightarrow> v)"

text \<open>Lines 71 to 76: the rewriting of \<open>projectPath\<close>, with the subfolder derived.\<close>

definition rewriteProjectPath :: "jobject \<Rightarrow> string option \<times> jobject" where
  "rewriteProjectPath args =
     (case map_of args ''projectPath'' of
        Some (JString projectPath) \<Rightarrow>
          if projectPath \<noteq> [] \<and> classifyPath projectPath = Unix
          then (extractProjectSubfolder projectPath,
                AList.update ''projectPath'' (JString (unixToWslPath projectPath)) args)
          else (None, args)
      | _ \<Rightarrow> (None, args))"

text \<open>Lines 78 to 89: \<^verbatim>\<open>if (projectSubfolder)\<close> holds for a token that is not empty.\<close>

definition prependSubfolder :: "string option \<Rightarrow> jobject \<Rightarrow> jobject" where
  "prependSubfolder projectSubfolder args =
     (case projectSubfolder of
        Some sub \<Rightarrow> if sub \<noteq> [] then foldl (prependKey sub) args relativePathKeys else args
      | None \<Rightarrow> args)"

definition transformRequest :: "MCPRequest \<Rightarrow> MCPRequest" where
  "transformRequest request =
     (if reqMethod request \<noteq> ''tools/call'' then request
      else case params request of
        None \<Rightarrow> request
      | Some ps \<Rightarrow>
          (case arguments ps of
             None \<Rightarrow> request
           | Some args0 \<Rightarrow>
               (let (projectSubfolder, args1) = rewriteProjectPath args0;
                    args2 = prependSubfolder projectSubfolder args1
                in request\<lparr>params := Some (ps\<lparr>arguments := Some args2\<rparr>)\<rparr>)))"

text \<open>The arguments of a request, when it has any.\<close>

definition argumentsOf :: "MCPRequest \<Rightarrow> jobject option" where
  "argumentsOf request = (case params request of None \<Rightarrow> None | Some ps \<Rightarrow> arguments ps)"

text \<open>
  A tool invocation for the project \<open>/home/user/dev/myproject\<close> with one more argument,
  used to evaluate the rewriting on concrete requests.
\<close>

definition exampleArgs :: "string \<Rightarrow> json \<Rightarrow> jobject" where
  "exampleArgs key v = [(''projectPath'', JString ''/home/user/dev/myproject''), (key, v)]"

definition exampleRequest :: "string \<Rightarrow> json \<Rightarrow> MCPRequest" where
  "exampleRequest key v =
     \<lparr>reqId = Some (IdNumber 1), reqMethod = ''tools/call'',
      params = Some \<lparr>arguments = Some (exampleArgs key v),
                     members = [(''name'', JString ''list_directory_tree'')]\<rparr>\<rparr>"

text \<open>The path \<open>C:\x\<close>.\<close>

definition drivePath :: string where
  "drivePath = [CHR ''C'', CHR '':'', backslash, CHR ''x'']"

section \<open>The bridge: state of the object and of the runtime (lines 94 to 208)\<close>

text \<open>
  The fields of \<open>JBStdioSSEBridge\<close> are the first four fields of \<open>bridge\<close>. The source runs
  on a single-threaded event loop; what the runtime holds for it is made explicit:
  \<^item> \<open>timers\<close>: the timers that are armed, each with its callback and its delay in
    milliseconds; \<open>setTimeout\<close> returns a fresh handle, \<open>clearTimeout\<close> disarms;
  \<^item> \<open>promises\<close>: the outcome of each promise returned by \<open>sendRequest\<close> that is settled;
    a promise that is not in the map is pending, and settling a settled promise does nothing;
  \<^item> \<open>calls\<close>: a log of every call of the \<open>resolve\<close> or \<open>reject\<close> of a promise, in
    order, whether the promise was pending or not;
  \<^item> \<open>buffer\<close>: the local variable of \<open>connect\<close> that carries the incomplete last line;
  \<^item> \<open>emitted\<close>: a log of the (event, data) pairs for which the body of
    \<^verbatim>\<open>if (pendingData && pendingEvent)\<close> was entered, in order.
  The callbacks of a waiter close over the promise of the caller and over the handle of the
  30 second timer, so a waiter is this pair.
\<close>

datatype failure = RequestTimeout | TransportError string

datatype outcome = Resolved MCPResponse | Rejected failure

datatype timerAction = Reconnect | RequestExpiry ident nat

record waiter =
  promise :: nat
  timeout :: nat

record bridge =
  jbMessageEndpoint :: "string option"
  pendingRequests :: "ident \<rightharpoonup> waiter"
  isConnecting :: bool
  reconnectTimer :: "nat option"
  timers :: "nat \<rightharpoonup> timerAction \<times> nat"
  nextTimer :: nat
  promises :: "nat \<rightharpoonup> outcome"
  nextPromise :: nat
  calls :: "(nat \<times> outcome) list"
  buffer :: string
  emitted :: "(string \<times> string) list"

text \<open>
  \<^verbatim>\<open>JSON.parse(pendingData) as MCPResponse\<close>, a function of the runtime and a parameter
  of the model. \<open>None\<close> stands for a parse that throws and for the value \<open>null\<close>, on
  which reading \<open>response.id\<close> throws; line 158 swallows both.
\<close>

type_synonym jsonParse = "string \<Rightarrow> MCPResponse option"

definition setTimeout :: "timerAction \<Rightarrow> nat \<Rightarrow> bridge \<Rightarrow> nat \<times> bridge" where
  "setTimeout action delay br =
     (nextTimer br,
      br\<lparr>timers := (timers br)(nextTimer br \<mapsto> (action, delay)),
         nextTimer := Suc (nextTimer br)\<rparr>)"

definition clearTimeout :: "nat \<Rightarrow> bridge \<Rightarrow> bridge" where
  "clearTimeout t br = br\<lparr>timers := (timers br)(t := None)\<rparr>"

definition settle :: "nat \<Rightarrow> outcome \<Rightarrow> bridge \<Rightarrow> bridge" where
  "settle p out br =
     (let br1 = br\<lparr>calls := calls br @ [(p, out)]\<rparr>
      in if promises br p = None then br1\<lparr>promises := (promises br)(p \<mapsto> out)\<rparr> else br1)"

text \<open>Lines 109 to 115.\<close>

definition scheduleReconnect :: "bridge \<Rightarrow> bridge" where
  "scheduleReconnect br =
     (let br1 = (case reconnectTimer br of Some t \<Rightarrow> clearTimeout t br | None \<Rightarrow> br);
          (t, br2) = setTimeout Reconnect 2000 br1
      in br2\<lparr>reconnectTimer := Some t\<rparr>)"

text \<open>Lines 166 to 171. \<open>pending.resolve\<close> disarms the timer of the waiter and resolves.\<close>

definition handleResponse :: "MCPResponse \<Rightarrow> bridge \<Rightarrow> bridge" where
  "handleResponse response br =
     (case respId response of
        None \<Rightarrow> br
      | Some i \<Rightarrow>
          (case pendingRequests br i of
             None \<Rightarrow> br
           | Some pending \<Rightarrow>
               (let br1 = settle (promise pending) (Resolved response)
                            (clearTimeout (timeout pending) br)
                in br1\<lparr>pendingRequests := (pendingRequests br1)(i := None)\<rparr>)))"

section \<open>The event stream parser (lines 133 to 164)\<close>

text \<open>
  \<open>trim\<close> removes white space and line terminators at both ends; among the code units
  below 256 these are 9 to 13, 32 and 160.
\<close>

definition isWhitespace :: "char \<Rightarrow> bool" where
  "isWhitespace c =
     (let n = (of_char c :: nat) in (9 \<le> n \<and> n \<le> 13) \<or> n = 32 \<or> n = 160)"

definition trim :: "string \<Rightarrow> string" where
  "trim s = rev (dropWhile isWhitespace (rev (dropWhile isWhitespace s)))"

text \<open>\<^verbatim>\<open>buffer.split('\n')\<close>: the result is never empty.\<close>

fun splitNewline :: "string \<Rightarrow> string list" where
  "splitNewline [] = [[]]"
| "splitNewline (c # cs) =
     (if c = newline then [] # splitNewline cs
      else (case splitNewline cs of
              l # ls \<Rightarrow> (c # l) # ls
            | [] \<Rightarrow> [[c]]))"

text \<open>
  Lines 156 to 159, entered with both slots populated: the pair is logged, then the two
  recognised event names are served. An exception of \<open>JSON.parse\<close> is swallowed.
\<close>

definition dispatchEvent :: "jsonParse \<Rightarrow> string \<Rightarrow> string \<Rightarrow> bridge \<Rightarrow> bridge" where
  "dispatchEvent parse pendingEvent pendingData br =
     (let br1 = br\<lparr>emitted := emitted br @ [(pendingEvent, pendingData)]\<rparr>
      in if pendingEvent = ''endpoint'' then br1\<lparr>jbMessageEndpoint := Some pendingData\<rparr>
         else if pendingEvent = ''message'' then
           (case parse pendingData of
              Some response \<Rightarrow> handleResponse response br1
            | None \<Rightarrow> br1)
         else br1)"

text \<open>
  The body of the loop of \<open>processLines\<close> (lines 152 to 162) on the two slots
  \<open>(pendingData, pendingEvent)\<close> and the bridge; an empty slot is the empty string.
\<close>

type_synonym slots = "string \<times> string"

fun lineStep :: "jsonParse \<Rightarrow> string \<Rightarrow> slots \<times> bridge \<Rightarrow> slots \<times> bridge" where
  "lineStep parse line ((pendingData, pendingEvent), br) =
     (if startsWith line ''data: '' then ((drop 6 line, pendingEvent), br)
      else if startsWith line ''event: '' then
        (let pendingEvent' = trim (drop 7 line)
         in if pendingData \<noteq> [] \<and> pendingEvent' \<noteq> []
            then (([], []), dispatchEvent parse pendingEvent' pendingData br)
            else ((pendingData, pendingEvent'), br))
      else ((pendingData, pendingEvent), br))"

definition processLoop :: "jsonParse \<Rightarrow> string list \<Rightarrow> slots \<times> bridge \<Rightarrow> slots \<times> bridge" where
  "processLoop parse lines st = foldl (\<lambda>st line. lineStep parse line st) st lines"

text \<open>Lines 149 to 164: both slots are locals of \<open>processLines\<close> and start empty.\<close>

definition processLines :: "jsonParse \<Rightarrow> string list \<Rightarrow> bridge \<Rightarrow> bridge" where
  "processLines parse lines br = snd (processLoop parse lines (([], []), br))"

text \<open>
  Lines 136 to 139, one round of the reading loop on a decoded chunk: the chunk is
  appended to the buffer, the buffer is split, the last piece is kept as the new buffer
  and the pieces before it are processed. The decoder runs in streaming mode, so the
  decoded chunks of a byte stream are a cut of its decoded text.
\<close>

definition readChunk :: "jsonParse \<Rightarrow> string \<Rightarrow> bridge \<Rightarrow> bridge" where
  "readChunk parse chunk br =
     (let lines = splitNewline (buffer br @ chunk)
      in processLines parse (butlast lines) (br\<lparr>buffer := last lines\<rparr>))"

definition readChunks :: "jsonParse \<Rightarrow> string list \<Rightarrow> bridge \<Rightarrow> bridge" where
  "readChunks parse chunks br = foldl (\<lambda>b chunk. readChunk parse chunk b) br chunks"

section \<open>The connection manager (lines 100 to 147)\<close>

text \<open>Lines 118 and 119: \<open>connect\<close> returns at once while a connection attempt is running.\<close>

definition connectStart :: "bridge \<Rightarrow> bridge" where
  "connectStart br = (if isConnecting br then br else br\<lparr>isConnecting := True\<rparr>)"

text \<open>Lines 126 to 131: the stream is open, the buffer of this connection is empty.\<close>

definition connected :: "bridge \<Rightarrow> bridge" where
  "connected br = br\<lparr>buffer := [], isConnecting := False\<rparr>"

text \<open>Line 135: the read reports the end of the stream.\<close>

definition streamEnded :: "bridge \<Rightarrow> bridge" where
  "streamEnded br = scheduleReconnect (br\<lparr>jbMessageEndpoint := None\<rparr>)"

text \<open>Lines 141 to 146: the request or a read has thrown.\<close>

definition connectionError :: "bridge \<Rightarrow> bridge" where
  "connectionError br =
     scheduleReconnect (br\<lparr>jbMessageEndpoint := None, isConnecting := False\<rparr>)"

section \<open>The correlator (lines 184 to 207)\<close>

text \<open>
  \<open>sendRequest\<close> from line 190 on, that is once an endpoint is known: the request is
  rewritten, the identifier is taken from the request or from \<open>random\<close>
  (the value of \<^verbatim>\<open>Math.random().toString(36).slice(2)\<close>), the 30 second timer is armed and
  the waiter is stored. The result names what the callback of a failed POST closes over.
\<close>

record submission =
  requestId :: ident
  caller :: nat
  expiry :: nat
  fullRequest :: MCPRequest

definition sendRequest :: "MCPRequest \<Rightarrow> string \<Rightarrow> bridge \<Rightarrow> submission \<times> bridge" where
  "sendRequest request random br =
     (let transformed = transformRequest request;
          rid = (case reqId transformed of Some i \<Rightarrow> i | None \<Rightarrow> IdString random);
          p = nextPromise br;
          (t, br1) = setTimeout (RequestExpiry rid p) 30000 (br\<lparr>nextPromise := Suc p\<rparr>)
      in (\<lparr>requestId = rid, caller = p, expiry = t,
           fullRequest = transformed\<lparr>reqId := Some rid\<rparr>\<rparr>,
          br1\<lparr>pendingRequests := (pendingRequests br1)(rid \<mapsto> \<lparr>promise = p, timeout = t\<rparr>)\<rparr>))"

text \<open>Line 205: the handler of a POST that failed with \<open>err\<close>.\<close>

definition postFailed :: "submission \<Rightarrow> string \<Rightarrow> bridge \<Rightarrow> bridge" where
  "postFailed sub err br =
     (let br1 = br\<lparr>pendingRequests := (pendingRequests br)(requestId sub := None)\<rparr>
      in settle (caller sub) (Rejected (TransportError err)) (clearTimeout (expiry sub) br1))"

text \<open>
  A timer fires: it is armed no more and its callback runs, line 195 for the timer of a
  request, lines 111 to 113 for the reconnection timer.
\<close>

definition timerFired :: "nat \<Rightarrow> bridge \<Rightarrow> bridge" where
  "timerFired t br =
     (case timers br t of
        None \<Rightarrow> br
      | Some (Reconnect, _) \<Rightarrow> connectStart (clearTimeout t br)
      | Some (RequestExpiry rid p, _) \<Rightarrow>
          (let br1 = clearTimeout t br
           in settle p (Rejected RequestTimeout)
                (br1\<lparr>pendingRequests := (pendingRequests br1)(rid := None)\<rparr>)))"

section \<open>Runs of the bridge\<close>

text \<open>
  The state after the constructor (line 100): nothing is known, and \<open>connect\<close> has been
  entered. Every callback runs to completion, so a run is a sequence of events: the
  stream opens, the connection fails, a chunk is read, the stream ends, a timer fires, a
  request is submitted (the wait for an endpoint before line 190 only delays it and is
  not modelled), a POST fails. No order is imposed on the events, and \<open>PostFailed\<close> may
  name any submission; this only adds runs.
\<close>

definition newBridge :: bridge where
  "newBridge =
     connectStart
       \<lparr>jbMessageEndpoint = None, pendingRequests = Map.empty, isConnecting = False,
        reconnectTimer = None, timers = Map.empty, nextTimer = 0, promises = Map.empty,
        nextPromise = 0, calls = [], buffer = [], emitted = []\<rparr>"

datatype event =
    Connected
  | ConnectionError
  | Chunk string
  | StreamEnded
  | TimerFired nat
  | Submit MCPRequest string
  | PostFailed submission string

fun fire :: "jsonParse \<Rightarrow> bridge \<Rightarrow> event \<Rightarrow> bridge" where
  "fire parse br Connected = connected br"
| "fire parse br ConnectionError = connectionError br"
| "fire parse br (Chunk chunk) = readChunk parse chunk br"
| "fire parse br StreamEnded = streamEnded br"
| "fire parse br (TimerFired t) = timerFired t br"
| "fire parse br (Submit request random) = snd (sendRequest request random br)"
| "fire parse br (PostFailed sub err) = postFailed sub err br"

definition run :: "jsonParse \<Rightarrow> event list \<Rightarrow> bridge" where
  "run parse evs = foldl (fire parse) newBridge evs"

text \<open>The reconnection timers that are armed.\<close>

definition reconnectArmed :: "bridge \<Rightarrow> nat \<Rightarrow> bool" where
  "reconnectArmed br t = (case timers br t of Some (Reconnect, _) \<Rightarrow> True | _ \<Rightarrow> False)"

text \<open>
  The reconnection timer that is armed, if there is one, is the timer whose handle the
  field \<open>reconnectTimer\<close> holds.
\<close>

definition singleReconnect :: "bridge \<Rightarrow> bool" where
  "singleReconnect br = (\<forall>t. reconnectArmed br t \<longrightarrow> reconnectTimer br = Some t)"

section \<open>Concrete inputs\<close>

text \<open>A \<open>JSON.parse\<close> for which every payload is malformed.\<close>

definition rejectAll :: jsonParse where
  "rejectAll payload = None"

text \<open>The bridge when the stream has just been opened.\<close>

definition openStream :: bridge where
  "openStream = connected newBridge"

text \<open>
  The stream \<open>data: x\<close>, newline, \<open>event: endpoint\<close>, newline: in one chunk, cut after
  the first line, and cut in the middle of the second line.
\<close>

definition oneChunk :: "string list" where
  "oneChunk = [''data: x'' @ [newline] @ ''event: endpoint'' @ [newline]]"

definition cutAtLine :: "string list" where
  "cutAtLine = [''data: x'' @ [newline], ''event: endpoint'' @ [newline]]"

definition cutMidLine :: "string list" where
  "cutMidLine = [''data: x'' @ [newline] @ ''ev'', ''ent: endpoint'' @ [newline]]"

text \<open>
  The bridge after the example request (identifier 1) was submitted once, so that its
  waiter is registered, and the result of submitting it a second time.
\<close>

definition firstSubmission :: "submission \<times> bridge" where
  "firstSubmission = sendRequest (exampleRequest ''path'' (JString ''src/app'')) [] openStream"


text \<open>
  A response to the example request, the payload \<open>{"id":1}\<close> that carries it, and a
  \<open>JSON.parse\<close> that reads this payload and takes every other one as malformed.
\<close>

definition exampleResponse :: MCPResponse where
  "exampleResponse = \<lparr>respId = Some (IdNumber 1), result = None, error = None\<rparr>"

definition examplePayload :: string where
  "examplePayload = ''{'' @ [CHR 0x22] @ ''id'' @ [CHR 0x22] @ '':1}''"

definition parseExample :: jsonParse where
  "parseExample payload = (if payload = examplePayload then Some exampleResponse else None)"

text \<open>The stream is opened and ends; the state after that.\<close>

definition afterLoss :: bridge where
  "afterLoss = run rejectAll [Connected, StreamEnded]"

section \<open>Properties of the path translation\<close>

lemma matchDevAt_Some:
  "matchDevAt s = Some name \<longleftrightarrow> name \<noteq> [] \<and> slash \<notin> set name \<and> s = ''/dev/'' @ name"
proof -
  have "startsWith s ''/dev/'' \<Longrightarrow> s = ''/dev/'' @ drop 5 s"
    by (auto simp: prefix_def)
  moreover have "s = ''/dev/'' @ name \<Longrightarrow> startsWith s ''/dev/'' \<and> drop 5 s = name"
    by simp
  ultimately show ?thesis
    unfolding matchDevAt_def by (metis option.inject option.distinct(1))
qed

lemma searchDev_sound:
  "searchDev s = Some name \<Longrightarrow> name \<noteq> [] \<and> slash \<notin> set name \<and> suffix (''/dev/'' @ name) s"
proof (induction s)
  case Nil
  then show ?case by simp
next
  case (Cons c cs)
  show ?case
  proof (cases "matchDevAt (c # cs)")
    case None
    with Cons.prems have "searchDev cs = Some name" by simp
    from Cons.IH [OF this] show ?thesis by (simp add: suffix_Cons)
  next
    case (Some n)
    with Cons.prems have "matchDevAt (c # cs) = Some name" by simp
    then show ?thesis by (simp add: matchDevAt_Some)
  qed
qed

text \<open>
  A match that starts before the last \<open>/dev/\<close> would have a slash in its group, so the
  leftmost match is the one at the tail.
\<close>

lemma matchDevAt_longer:
  assumes "pre \<noteq> []"
  shows "matchDevAt (pre @ ''/dev/'' @ name) = None"
proof -
  define xs where "xs = pre @ ''/dev''"
  have len: "5 \<le> length xs" using assms by (cases pre) (auto simp: xs_def)
  have "pre @ ''/dev/'' @ name = xs @ slash # name"
    by (simp add: xs_def slash_def)
  moreover have "drop 5 (xs @ slash # name) = drop 5 xs @ slash # name"
    using len by simp
  moreover have "slash \<in> set (drop 5 xs @ slash # name)" by simp
  ultimately have "slash \<in> set (drop 5 (pre @ ''/dev/'' @ name))" by metis
  then show ?thesis unfolding matchDevAt_def by simp
qed

lemma searchDev_complete:
  "name \<noteq> [] \<Longrightarrow> slash \<notin> set name \<Longrightarrow> searchDev (pre @ ''/dev/'' @ name) = Some name"
proof (induction pre)
  case Nil
  have "matchDevAt (''/dev/'' @ name) = Some name"
    using Nil by (simp add: matchDevAt_Some)
  then show ?case by simp
next
  case (Cons c pre)
  have "matchDevAt ((c # pre) @ ''/dev/'' @ name) = None"
    by (rule matchDevAt_longer) simp
  with Cons show ?case by simp
qed

lemma searchDev_iff:
  "searchDev s = Some name \<longleftrightarrow> name \<noteq> [] \<and> slash \<notin> set name \<and> suffix (''/dev/'' @ name) s"
  using searchDev_sound searchDev_complete unfolding suffix_def by metis



text \<open>
  Claim C3. A path that \<open>classifyPath\<close> maps to \<open>Unix\<close> is rewritten by
  \<open>unixToWslPath\<close> into a path that \<open>classifyPath\<close> maps to \<open>Wsl\<close>.
\<close>

theorem classify_rewrite_wsl:
  "classifyPath p = Unix \<Longrightarrow> classifyPath (unixToWslPath p) = Wsl"
  by (simp add: classifyPath_def unixToWslPath_def)

theorem classify_rewrite_wsl_witness:
  "classifyPath ''/home/user/project'' = Unix
   \<and> classifyPath (unixToWslPath ''/home/user/project'') = Wsl"
proof -
  have h: "classifyPath ''/home/user/project'' = Unix"
    by (simp add: classifyPath_def)
  from h classify_rewrite_wsl [OF h] show ?thesis by simp
qed

section \<open>Properties of the request rewriting\<close>

text \<open>One round of the loop changes the value under its key as \<open>prependValue\<close> says.\<close>

lemma prependKey_value:
  "map_of (prependKey sub args key) k =
     (if k = key then prependValue sub (map_of args k) else map_of args k)"
  by (auto simp: prependKey_def prependValue_def update_conv' split: option.splits json.splits)

lemma prependValue_idem: "prependValue sub (prependValue sub v) = prependValue sub v"
  by (auto simp: prependValue_def split: option.splits json.splits)

text \<open>
  The whole loop, for any list of keys: a second visit of a key finds the value prefixed
  and leaves it.
\<close>

lemma prependKeys_value:
  "map_of (foldl (prependKey sub) args ks) k =
     (if k \<in> set ks then prependValue sub (map_of args k) else map_of args k)"
proof (induction ks arbitrary: args)
  case Nil
  then show ?case by simp
next
  case (Cons x ks)
  show ?case
    by (simp add: Cons.IH prependKey_value prependValue_idem)
qed

lemma classifyPath_Unix_nonempty: "classifyPath p = Unix \<Longrightarrow> p \<noteq> []"
  by (auto simp: classifyPath_def)

lemma extractProjectSubfolder_nonempty: "extractProjectSubfolder p = Some t \<Longrightarrow> t \<noteq> []"
  by (simp add: extractProjectSubfolder_def searchDev_iff)

lemma projectPath_not_relative: "key \<in> set relativePathKeys \<Longrightarrow> key \<noteq> ''projectPath''"
  by (auto simp: relativePathKeys_def)

text \<open>
  What \<open>transformRequest\<close> does to the argument under a key of \<open>relativePathKeys\<close>
  when the project path is a \<open>Unix\<close> path with a subfolder.
\<close>

lemma transformRequest_sibling:
  assumes "reqMethod request = ''tools/call''"
    and "params request = Some ps"
    and "arguments ps = Some args"
    and "map_of args ''projectPath'' = Some (JString projectPath)"
    and "classifyPath projectPath = Unix"
    and "extractProjectSubfolder projectPath = Some t"
    and "key \<in> set relativePathKeys"
  shows "\<exists>args'. argumentsOf (transformRequest request) = Some args'
           \<and> map_of args' key = prependValue t (map_of args key)"
proof -
  let ?args1 = "AList.update ''projectPath'' (JString (unixToWslPath projectPath)) args"
  let ?args2 = "foldl (prependKey t) ?args1 relativePathKeys"
  have ne: "projectPath \<noteq> []" "t \<noteq> []"
    using assms classifyPath_Unix_nonempty extractProjectSubfolder_nonempty by auto
  have rw: "rewriteProjectPath args = (Some t, ?args1)"
    using assms ne by (simp add: rewriteProjectPath_def)
  have pre: "prependSubfolder (Some t) ?args1 = ?args2"
    using ne by (simp add: prependSubfolder_def)
  have "transformRequest request = request\<lparr>params := Some (ps\<lparr>arguments := Some ?args2\<rparr>)\<rparr>"
    using assms(1-3) rw pre by (simp add: transformRequest_def)
  then have a: "argumentsOf (transformRequest request) = Some ?args2"
    by (simp add: argumentsOf_def)
  have "map_of ?args1 key = map_of args key"
    using projectPath_not_relative [OF assms(7)] by (simp add: update_conv')
  then have "map_of ?args2 key = prependValue t (map_of args key)"
    using assms(7) by (simp add: prependKeys_value)
  with a show ?thesis by blast
qed



lemma example_facts:
  "reqMethod (exampleRequest key v) = ''tools/call''"
  "params (exampleRequest key v) = Some \<lparr>arguments = Some (exampleArgs key v),
      members = [(''name'', JString ''list_directory_tree'')]\<rparr>"
  "arguments \<lparr>arguments = Some (exampleArgs key v),
      members = [(''name'', JString ''list_directory_tree'')]\<rparr> = Some (exampleArgs key v)"
  "map_of (exampleArgs key v) ''projectPath'' = Some (JString ''/home/user/dev/myproject'')"
  by (simp_all add: exampleRequest_def exampleArgs_def)

lemma example_project:
  "classifyPath ''/home/user/dev/myproject'' = Unix"
  "extractProjectSubfolder ''/home/user/dev/myproject'' = Some ''myproject''"
  by (simp_all add: classifyPath_def extractProjectSubfolder_def matchVirtualSegment_def
      matchDevAt_def slash_def)

lemma example_path:
  "''path'' \<in> set relativePathKeys"
  "map_of (exampleArgs ''path'' v) ''path'' = Some v"
  by (simp_all add: relativePathKeys_def exampleArgs_def)

text \<open>
  Claim C4, as amended. For a \<open>tools/call\<close> request whose \<open>projectPath\<close> argument is
  classified \<open>Unix\<close> and yields the subfolder \<open>t\<close>, and for a key of \<open>relativePathKeys\<close>
  that holds a string: the string becomes \<open>t/val\<close> when it is not empty, does not start
  with a slash and does not start with \<open>t\<close>; otherwise (already prefixed, starting with a
  slash, or empty) it is left as it is.
\<close>

theorem transformRequest_prepends:
  assumes "reqMethod request = ''tools/call''"
    and "params request = Some ps"
    and "arguments ps = Some args"
    and "map_of args ''projectPath'' = Some (JString projectPath)"
    and "classifyPath projectPath = Unix"
    and "extractProjectSubfolder projectPath = Some t"
    and "key \<in> set relativePathKeys"
    and "map_of args key = Some (JString val)"
  shows "\<exists>args'. argumentsOf (transformRequest request) = Some args'
           \<and> map_of args' key =
               Some (JString (if val \<noteq> [] \<and> \<not> startsWith val [slash] \<and> \<not> startsWith val t
                              then t @ [slash] @ val else val))"
proof -
  from transformRequest_sibling [OF assms(1-7)]
  obtain args' where a: "argumentsOf (transformRequest request) = Some args'"
    and v: "map_of args' key = prependValue t (map_of args key)" by blast
  from v assms(8) have "map_of args' key =
      Some (JString (if val \<noteq> [] \<and> \<not> startsWith val [slash] \<and> \<not> startsWith val t
                     then t @ [slash] @ val else val))"
    by (simp add: prependValue_def)
  with a show ?thesis by blast
qed

theorem transformRequest_prepends_witness:
  "(\<exists>args'. argumentsOf (transformRequest (exampleRequest ''path'' (JString ''src/app''))) = Some args'
      \<and> map_of args' ''path'' = Some (JString ''myproject/src/app''))
   \<and> (\<exists>args'. argumentsOf (transformRequest (exampleRequest ''path'' (JString ''myproject/src''))) = Some args'
      \<and> map_of args' ''path'' = Some (JString ''myproject/src''))
   \<and> (\<exists>args'. argumentsOf (transformRequest (exampleRequest ''path'' (JString ''/etc/hosts''))) = Some args'
      \<and> map_of args' ''path'' = Some (JString ''/etc/hosts''))"
proof -
  have 1: "\<exists>args'. argumentsOf (transformRequest (exampleRequest ''path'' (JString ''src/app''))) = Some args'
      \<and> map_of args' ''path'' = Some (JString ''myproject/src/app'')"
    using transformRequest_prepends [OF example_facts example_project example_path,
        where val = "''src/app''"]
    by (simp add: slash_def)
  have 2: "\<exists>args'. argumentsOf (transformRequest (exampleRequest ''path'' (JString ''myproject/src''))) = Some args'
      \<and> map_of args' ''path'' = Some (JString ''myproject/src'')"
    using transformRequest_prepends [OF example_facts example_project example_path,
        where val = "''myproject/src''"]
    by (simp add: slash_def)
  have 3: "\<exists>args'. argumentsOf (transformRequest (exampleRequest ''path'' (JString ''/etc/hosts''))) = Some args'
      \<and> map_of args' ''path'' = Some (JString ''/etc/hosts'')"
    using transformRequest_prepends [OF example_facts example_project example_path,
        where val = "''/etc/hosts''"]
    by (simp add: slash_def)
  from 1 2 3 show ?thesis by blast
qed


text \<open>
  The claim C4 as it is written asks for every string value that neither starts with a slash
  nor with \<open>t\<close> to become \<open>t/val\<close>. The empty string is such a value, and the test
  \<^verbatim>\<open>args[key] && ...\<close> of line 81 leaves it alone: for \<open>path: ""\<close> the result still
  holds the empty string, not \<open>myproject/\<close>.
\<close>

theorem transformRequest_empty_value_counterexample:
  "''path'' \<in> set relativePathKeys
   \<and> map_of (exampleArgs ''path'' (JString [])) ''path'' = Some (JString [])
   \<and> \<not> startsWith [] [slash] \<and> \<not> startsWith [] ''myproject''
   \<and> map_of (the (argumentsOf (transformRequest (exampleRequest ''path'' (JString [])))))
        ''path'' = Some (JString [])
   \<and> JString [] \<noteq> JString (''myproject'' @ [slash] @ [])"
proof -
  from transformRequest_sibling [OF example_facts [of "''path''" "JString []"] example_project example_path(1)]
  obtain args' where
    a: "argumentsOf (transformRequest (exampleRequest ''path'' (JString []))) = Some args'"
    and v: "map_of args' ''path'' =
              prependValue ''myproject'' (map_of (exampleArgs ''path'' (JString [])) ''path'')"
    by blast
  from v have "map_of args' ''path'' = Some (JString [])"
    by (simp add: example_path(2) prependValue_def)
  with a show ?thesis by (simp add: example_path)
qed

text \<open>The drive-letter path \<open>C:\x\<close> is classified \<open>Windows\<close> and does not start with a slash.\<close>

lemma drivePath_facts:
  "driveLetterPrefix drivePath"
  "classifyPath drivePath = Windows"
  "\<not> startsWith drivePath ''myproject''"
  by (simp_all add: drivePath_def classifyPath_def isAsciiLetter_def backslash_def)

text \<open>
  Claim C10. For a \<open>tools/call\<close> request that derives the subfolder \<open>t\<close>, a string under
  a key of \<open>relativePathKeys\<close> that begins with a drive letter and a colon and does not
  start with \<open>t\<close> becomes \<open>t/val\<close>: line 83 tests a leading slash only.
\<close>

theorem transformRequest_drive_letter:
  assumes "reqMethod request = ''tools/call''"
    and "params request = Some ps"
    and "arguments ps = Some args"
    and "map_of args ''projectPath'' = Some (JString projectPath)"
    and "classifyPath projectPath = Unix"
    and "extractProjectSubfolder projectPath = Some t"
    and "key \<in> set relativePathKeys"
    and "map_of args key = Some (JString val)"
    and "driveLetterPrefix val"
    and "\<not> startsWith val t"
  shows "\<exists>args'. argumentsOf (transformRequest request) = Some args'
           \<and> map_of args' key = Some (JString (t @ [slash] @ val))"
proof -
  from assms(9) obtain c d rest where val: "val = c # d # rest" and c: "isAsciiLetter c"
    by (cases val rule: driveLetterPrefix.cases) auto
  from c have "c \<noteq> slash" by (auto simp: isAsciiLetter_def slash_def)
  with val have ns: "val \<noteq> []" "\<not> startsWith val [slash]" by auto
  from transformRequest_sibling [OF assms(1-7)]
  obtain args' where a: "argumentsOf (transformRequest request) = Some args'"
    and v: "map_of args' key = prependValue t (map_of args key)" by blast
  from v assms(8,10) ns have "map_of args' key = Some (JString (t @ [slash] @ val))"
    by (simp add: prependValue_def)
  with a show ?thesis by blast
qed

theorem transformRequest_drive_letter_witness:
  "driveLetterPrefix drivePath
   \<and> classifyPath drivePath = Windows
   \<and> \<not> startsWith drivePath ''myproject''
   \<and> (\<exists>args'. argumentsOf (transformRequest (exampleRequest ''path'' (JString drivePath)))
                 = Some args'
      \<and> map_of args' ''path'' = Some (JString (''myproject/'' @ drivePath)))"
proof -
  from transformRequest_drive_letter [OF example_facts example_project example_path
      drivePath_facts(1) drivePath_facts(3)]
  have "\<exists>args'. argumentsOf (transformRequest (exampleRequest ''path'' (JString drivePath)))
                 = Some args'
      \<and> map_of args' ''path'' = Some (JString (''myproject/'' @ drivePath))"
    by (simp add: slash_def)
  with drivePath_facts show ?thesis by blast
qed

section \<open>Properties of the event stream parser\<close>

text \<open>An emission appends exactly its pair to the log; serving a response does not log.\<close>

lemma emitted_handleResponse: "emitted (handleResponse r br) = emitted br"
  by (simp add: handleResponse_def settle_def clearTimeout_def Let_def split: option.splits)

lemma emitted_dispatchEvent:
  "emitted (dispatchEvent parse e d br) = emitted br @ [(e, d)]"
  by (simp add: dispatchEvent_def Let_def emitted_handleResponse split: option.splits)

lemma processLoop_Nil: "processLoop parse [] st = st"
  by (simp add: processLoop_def)

lemma processLoop_Cons:
  "processLoop parse (l # ls) st = processLoop parse ls (lineStep parse l st)"
  by (simp add: processLoop_def)

text \<open>
  In a batch without a \<open>data: \<close> line the data slot stays empty, so no \<open>event: \<close> line
  of the batch reaches the bridge.
\<close>

lemma processLoop_no_data:
  "\<forall>l \<in> set ls. \<not> startsWith l ''data: '' \<Longrightarrow>
     fst (fst (processLoop parse ls (([], pe), br))) = []
     \<and> snd (processLoop parse ls (([], pe), br)) = br"
proof (induction ls arbitrary: pe)
  case Nil
  then show ?case by (simp add: processLoop_Nil)
next
  case (Cons l ls)
  then have nd: "\<not> startsWith l ''data: ''" and rest: "\<forall>l \<in> set ls. \<not> startsWith l ''data: ''"
    by simp_all
  from nd have "\<exists>pe'. lineStep parse l (([], pe), br) = (([], pe'), br)"
    by (simp add: Let_def)
  then obtain pe' where "lineStep parse l (([], pe), br) = (([], pe'), br)" ..
  then show ?case using Cons.IH [OF rest] by (simp add: processLoop_Cons)
qed

lemma openStream_fields:
  "emitted openStream = []"
  "buffer openStream = []"
  "jbMessageEndpoint openStream = None"
  "pendingRequests openStream = Map.empty"
  "promises openStream = Map.empty"
  "timers openStream = Map.empty"
  "nextTimer openStream = 0"
  "nextPromise openStream = 0"
  "reconnectTimer openStream = None"
  "calls openStream = []"
  by (simp_all add: openStream_def connected_def newBridge_def connectStart_def)

text \<open>
  Claim C5, as amended. In one round of the loop of \<open>processLines\<close>: a line that starts
  with \<open>data: \<close> sets the data slot to the rest of the line. A line that starts with
  \<open>event: \<close> sets the event slot to the trimmed rest of the line; if and only if the data
  slot is populated and the trimmed event name is not empty, exactly one pair
  (event, data) is emitted and both slots are cleared, otherwise nothing is emitted and the
  data slot is kept. Any other line changes nothing. A batch without a \<open>data: \<close> line
  emits nothing and leaves the bridge as it was.
\<close>

theorem lineStep_framing:
  "(startsWith line ''data: '' \<longrightarrow>
      lineStep parse line ((pd, pe), br) = ((drop 6 line, pe), br))
   \<and> (\<not> startsWith line ''data: '' \<and> startsWith line ''event: '' \<longrightarrow>
        (if pd \<noteq> [] \<and> trim (drop 7 line) \<noteq> []
         then fst (lineStep parse line ((pd, pe), br)) = ([], [])
              \<and> emitted (snd (lineStep parse line ((pd, pe), br)))
                  = emitted br @ [(trim (drop 7 line), pd)]
         else lineStep parse line ((pd, pe), br) = ((pd, trim (drop 7 line)), br)))
   \<and> (\<not> startsWith line ''data: '' \<and> \<not> startsWith line ''event: '' \<longrightarrow>
        lineStep parse line ((pd, pe), br) = ((pd, pe), br))
   \<and> ((\<forall>l \<in> set ls. \<not> startsWith l ''data: '') \<longrightarrow> processLines parse ls br = br)"
proof -
  have 1: "startsWith line ''data: '' \<longrightarrow>
      lineStep parse line ((pd, pe), br) = ((drop 6 line, pe), br)"
    by simp
  have 2: "\<not> startsWith line ''data: '' \<and> startsWith line ''event: '' \<longrightarrow>
        (if pd \<noteq> [] \<and> trim (drop 7 line) \<noteq> []
         then fst (lineStep parse line ((pd, pe), br)) = ([], [])
              \<and> emitted (snd (lineStep parse line ((pd, pe), br)))
                  = emitted br @ [(trim (drop 7 line), pd)]
         else lineStep parse line ((pd, pe), br) = ((pd, trim (drop 7 line)), br))"
    by (simp add: Let_def emitted_dispatchEvent)
  have 3: "\<not> startsWith line ''data: '' \<and> \<not> startsWith line ''event: '' \<longrightarrow>
        lineStep parse line ((pd, pe), br) = ((pd, pe), br)"
    by simp
  have 4: "(\<forall>l \<in> set ls. \<not> startsWith l ''data: '') \<longrightarrow> processLines parse ls br = br"
    using processLoop_no_data [of ls parse "[]" br] by (simp add: processLines_def)
  from 1 2 3 4 show ?thesis by blast
qed

theorem lineStep_framing_witness:
  "lineStep rejectAll ''data: x'' (([], []), openStream) = ((''x'', []), openStream)
   \<and> fst (lineStep rejectAll ''event: endpoint'' ((''x'', []), openStream)) = ([], [])
   \<and> emitted (snd (lineStep rejectAll ''event: endpoint'' ((''x'', []), openStream)))
        = [(''endpoint'', ''x'')]
   \<and> lineStep rejectAll ''event: endpoint'' (([], []), openStream)
        = (([], ''endpoint''), openStream)
   \<and> lineStep rejectAll '': ping'' ((''x'', []), openStream) = ((''x'', []), openStream)
   \<and> processLines rejectAll [''event: endpoint''] openStream = openStream"
proof -
  have t: "trim (drop 7 ''event: endpoint'') = ''endpoint''"
    by (simp add: trim_def isWhitespace_def)
  have 1: "lineStep rejectAll ''data: x'' (([], []), openStream) = ((''x'', []), openStream)"
    using lineStep_framing [where line = "''data: x''" and parse = rejectAll and pd = "[]"
        and pe = "[]" and br = openStream and ls = "[]"]
    by simp
  have 2: "fst (lineStep rejectAll ''event: endpoint'' ((''x'', []), openStream)) = ([], [])
     \<and> emitted (snd (lineStep rejectAll ''event: endpoint'' ((''x'', []), openStream)))
        = [(''endpoint'', ''x'')]"
    using lineStep_framing [where line = "''event: endpoint''" and parse = rejectAll
        and pd = "''x''" and pe = "[]" and br = openStream and ls = "[]"] t
    by (simp add: openStream_fields)
  have 3: "lineStep rejectAll ''event: endpoint'' (([], []), openStream)
        = (([], ''endpoint''), openStream)
     \<and> processLines rejectAll [''event: endpoint''] openStream = openStream"
    using lineStep_framing [where line = "''event: endpoint''" and parse = rejectAll
        and pd = "[]" and pe = "[]" and br = openStream and ls = "[''event: endpoint'']"] t
    by simp
  have 4: "lineStep rejectAll '': ping'' ((''x'', []), openStream) = ((''x'', []), openStream)"
    using lineStep_framing [where line = "'': ping''" and parse = rejectAll
        and pd = "''x''" and pe = "[]" and br = openStream and ls = "[]"]
    by simp
  from 1 2 3 4 show ?thesis by blast
qed

text \<open>
  The claim C5 as it is written lets an \<open>event: \<close> line emit whenever the data slot is
  populated. With the data slot holding \<open>x\<close>, the lines \<open>event: \<close> and
  \<open>event:\<close> followed by blanks emit nothing and leave the data slot populated: line 155
  also asks for an event name that is not empty after trimming.
\<close>

theorem lineStep_empty_event_counterexample:
  "startsWith ''event: '' ''event: ''
   \<and> \<not> startsWith ''event: '' ''data: ''
   \<and> ''x'' \<noteq> []
   \<and> lineStep rejectAll ''event: '' ((''x'', []), openStream) = ((''x'', []), openStream)
   \<and> lineStep rejectAll ''event:   '' ((''x'', []), openStream) = ((''x'', []), openStream)"
  by (simp add: trim_def isWhitespace_def)

text \<open>
  The carry-over buffer: after one or more reads the buffer is the piece after the last
  newline of everything read so far, wherever the chunks were cut. The lines are thus
  put together in the same way for every cut.
\<close>

lemma splitNewline_nonempty: "splitNewline s \<noteq> []"
  by (induction s) (auto split: list.splits)

lemma splitNewline_no_newline: "newline \<notin> set s \<Longrightarrow> splitNewline s = [s]"
  by (induction s) auto

lemma splitNewline_two: "newline \<in> set s \<Longrightarrow> tl (splitNewline s) \<noteq> []"
  using splitNewline_nonempty by (induction s) (auto split: list.splits)

lemma last_splitNewline_Cons:
  "last (splitNewline (c # s)) =
     (if newline \<in> set s then last (splitNewline s)
      else if c = newline then s else c # s)"
proof (cases "newline \<in> set s")
  case True
  then obtain l ls where s: "splitNewline s = l # ls" and ls: "ls \<noteq> []"
    using splitNewline_two [of s] by (cases "splitNewline s") auto
  with True show ?thesis by simp
next
  case False
  then show ?thesis by (simp add: splitNewline_no_newline)
qed

lemma last_splitNewline_append:
  "last (splitNewline (last (splitNewline a) @ b)) = last (splitNewline (a @ b))"
proof (induction a)
  case Nil
  show ?case by simp
next
  case (Cons c cs)
  show ?case
  proof (cases "newline \<in> set cs")
    case True
    then have "last (splitNewline (c # cs)) = last (splitNewline cs)"
      and "last (splitNewline (c # (cs @ b))) = last (splitNewline (cs @ b))"
      by (simp_all add: last_splitNewline_Cons del: splitNewline.simps)
    with Cons.IH show ?thesis by simp
  next
    case False
    show ?thesis
    proof (cases "c = newline")
      case True
      with False have "last (splitNewline (c # cs)) = cs"
        by (simp add: last_splitNewline_Cons del: splitNewline.simps)
      moreover from True have "last (splitNewline (c # (cs @ b))) = last (splitNewline (cs @ b))"
        using splitNewline_nonempty [of "cs @ b"] by simp
      ultimately show ?thesis by simp
    next
      case nl: False
      with False have "last (splitNewline (c # cs)) = c # cs"
        by (simp add: last_splitNewline_Cons del: splitNewline.simps)
      then show ?thesis by simp
    qed
  qed
qed

lemma buffer_handleResponse: "buffer (handleResponse r br) = buffer br"
  by (simp add: handleResponse_def settle_def clearTimeout_def Let_def split: option.splits)

lemma buffer_dispatchEvent: "buffer (dispatchEvent parse e d br) = buffer br"
  by (simp add: dispatchEvent_def Let_def buffer_handleResponse split: option.splits)

lemma buffer_lineStep: "buffer (snd (lineStep parse l st)) = buffer (snd st)"
proof -
  obtain pd pe br where st: "st = ((pd, pe), br)" by (metis surj_pair)
  show ?thesis unfolding st by (simp add: Let_def buffer_dispatchEvent)
qed

lemma buffer_processLoop: "buffer (snd (processLoop parse ls st)) = buffer (snd st)"
  by (induction ls arbitrary: st) (simp_all add: processLoop_Nil processLoop_Cons buffer_lineStep)

lemma buffer_readChunk:
  "buffer (readChunk parse chunk br) = last (splitNewline (buffer br @ chunk))"
  by (simp add: readChunk_def Let_def processLines_def buffer_processLoop)

lemma buffer_readChunks:
  "buffer (readChunks parse (chunk # chunks) br)
     = last (splitNewline (buffer br @ concat (chunk # chunks)))"
proof (induction chunks arbitrary: chunk br)
  case Nil
  show ?case by (simp add: readChunks_def buffer_readChunk)
next
  case (Cons chunk' chunks)
  have "readChunks parse (chunk # chunk' # chunks) br
          = readChunks parse (chunk' # chunks) (readChunk parse chunk br)"
    by (simp add: readChunks_def)
  then have "buffer (readChunks parse (chunk # chunk' # chunks) br)
          = last (splitNewline (last (splitNewline (buffer br @ chunk)) @ concat (chunk' # chunks)))"
    by (simp only: Cons.IH buffer_readChunk)
  also have "\<dots> = last (splitNewline ((buffer br @ chunk) @ concat (chunk' # chunks)))"
    by (rule last_splitNewline_append)
  finally show ?case by simp
qed

text \<open>
  Claim C1. The stream \<open>data: x\<close>, newline, \<open>event: endpoint\<close>, newline, read as one
  chunk, emits the pair (\<open>endpoint\<close>, \<open>x\<close>) and stores the endpoint. The same stream
  cut after the first line, or in the middle of the second line, emits nothing and stores
  no endpoint: the incomplete line is carried from one read to the next, but the two slots
  are locals of \<open>processLines\<close> and start empty for every batch.
\<close>

theorem chunk_boundary_drops_pair:
  "concat cutAtLine = concat oneChunk
   \<and> concat cutMidLine = concat oneChunk
   \<and> emitted (readChunks rejectAll oneChunk openStream) = [(''endpoint'', ''x'')]
   \<and> jbMessageEndpoint (readChunks rejectAll oneChunk openStream) = Some ''x''
   \<and> emitted (readChunks rejectAll cutAtLine openStream) = []
   \<and> jbMessageEndpoint (readChunks rejectAll cutAtLine openStream) = None
   \<and> emitted (readChunks rejectAll cutMidLine openStream) = []
   \<and> jbMessageEndpoint (readChunks rejectAll cutMidLine openStream) = None"
proof -
  have c: "concat cutAtLine = concat oneChunk" "concat cutMidLine = concat oneChunk"
    by (simp_all add: cutAtLine_def cutMidLine_def oneChunk_def)
  have t: "trim ''endpoint'' = ''endpoint''"
    by (simp add: trim_def isWhitespace_def)
  have one: "readChunks rejectAll oneChunk openStream
      = openStream\<lparr>jbMessageEndpoint := Some ''x'', emitted := [(''endpoint'', ''x'')]\<rparr>"
    by (simp add: readChunks_def readChunk_def oneChunk_def newline_def processLines_def
        processLoop_def dispatchEvent_def t openStream_fields)
  have line: "readChunks rejectAll cutAtLine openStream = openStream"
    by (simp add: readChunks_def readChunk_def cutAtLine_def newline_def processLines_def
        processLoop_def dispatchEvent_def t openStream_fields)
  have mid: "readChunks rejectAll cutMidLine openStream = openStream"
    by (simp add: readChunks_def readChunk_def cutMidLine_def newline_def processLines_def
        processLoop_def dispatchEvent_def t openStream_fields)
  show ?thesis
    unfolding one line mid using c by (simp add: openStream_fields)
qed

section \<open>Properties of the correlator\<close>

text \<open>
  Claim C8. A response whose identifier has no waiter leaves the bridge as it is: no
  promise is settled, no timer is disarmed, the registry is unchanged. Delivered through
  the stream as a \<open>message\<close> event, it changes nothing but the log of emitted pairs.
\<close>

theorem handleResponse_unmatched:
  assumes "respId response = Some i" and "pendingRequests br i = None"
  shows "handleResponse response br = br
         \<and> (pendingData \<noteq> [] \<and> parse pendingData = Some response \<longrightarrow>
              processLines parse [''data: '' @ pendingData, ''event: message''] br
                = br\<lparr>emitted := emitted br @ [(''message'', pendingData)]\<rparr>)"
proof -
  have h: "\<And>b. pendingRequests b = pendingRequests br \<Longrightarrow> handleResponse response b = b"
    using assms by (simp add: handleResponse_def)
  have t: "trim ''message'' = ''message''"
    by (simp add: trim_def isWhitespace_def)
  have "pendingData \<noteq> [] \<and> parse pendingData = Some response \<longrightarrow>
              processLines parse [''data: '' @ pendingData, ''event: message''] br
                = br\<lparr>emitted := emitted br @ [(''message'', pendingData)]\<rparr>"
    by (simp add: processLines_def processLoop_def dispatchEvent_def t h)
  with h [of br] show ?thesis by simp
qed

text \<open>The rewriting of a request keeps its identifier.\<close>

lemma reqId_transformRequest: "reqId (transformRequest request) = reqId request"
  by (simp add: transformRequest_def Let_def split: option.splits prod.splits)

lemma sendRequest_eq:
  assumes "reqId request = Some rid"
  shows "sendRequest request random br =
     (\<lparr>requestId = rid, caller = nextPromise br, expiry = nextTimer br,
       fullRequest = (transformRequest request)\<lparr>reqId := Some rid\<rparr>\<rparr>,
      br\<lparr>nextPromise := Suc (nextPromise br),
         timers := (timers br)(nextTimer br \<mapsto> (RequestExpiry rid (nextPromise br), 30000)),
         nextTimer := Suc (nextTimer br),
         pendingRequests :=
           (pendingRequests br)(rid \<mapsto> \<lparr>promise = nextPromise br, timeout = nextTimer br\<rparr>)\<rparr>)"
  using assms by (simp add: sendRequest_def setTimeout_def Let_def reqId_transformRequest)

lemma exampleRequest_id: "reqId (exampleRequest key v) = Some (IdNumber 1)"
  by (simp add: exampleRequest_def)

lemma firstSubmission_fields:
  "requestId (fst firstSubmission) = IdNumber 1"
  "caller (fst firstSubmission) = 0"
  "expiry (fst firstSubmission) = 0"
  "pendingRequests (snd firstSubmission) (IdNumber 1) = Some \<lparr>promise = 0, timeout = 0\<rparr>"
  "promises (snd firstSubmission) = Map.empty"
  "calls (snd firstSubmission) = []"
  "timers (snd firstSubmission) 0 = Some (RequestExpiry (IdNumber 1) 0, 30000)"
  "nextPromise (snd firstSubmission) = Suc 0"
  "nextTimer (snd firstSubmission) = Suc 0"
  by (simp_all add: firstSubmission_def sendRequest_eq [OF exampleRequest_id] openStream_fields)


text \<open>The example request expires: its waiter is removed and its caller fails.\<close>

lemma expired_fields:
  "pendingRequests (timerFired 0 (snd firstSubmission)) = Map.empty"
  "promises (timerFired 0 (snd firstSubmission)) 0 = Some (Rejected RequestTimeout)"
  by (simp_all add: timerFired_def firstSubmission_fields clearTimeout_def settle_def Let_def
      firstSubmission_def sendRequest_eq [OF exampleRequest_id] openStream_fields)

theorem handleResponse_unmatched_witness:
  "respId exampleResponse = Some (IdNumber 1)
   \<and> pendingRequests (timerFired 0 (snd firstSubmission)) (IdNumber 1) = None
   \<and> handleResponse exampleResponse (timerFired 0 (snd firstSubmission))
        = timerFired 0 (snd firstSubmission)
   \<and> promises (handleResponse exampleResponse (timerFired 0 (snd firstSubmission))) 0
        = Some (Rejected RequestTimeout)
   \<and> jbMessageEndpoint (processLines parseExample [''data: '' @ examplePayload, ''event: message'']
        (timerFired 0 (snd firstSubmission)))
        = jbMessageEndpoint (timerFired 0 (snd firstSubmission))"
proof -
  have i: "respId exampleResponse = Some (IdNumber 1)" by (simp add: exampleResponse_def)
  have p: "pendingRequests (timerFired 0 (snd firstSubmission)) (IdNumber 1) = None"
    by (simp add: expired_fields)
  have e: "examplePayload \<noteq> [] \<and> parseExample examplePayload = Some exampleResponse"
    by (simp add: parseExample_def examplePayload_def)
  from handleResponse_unmatched [OF i p, where parse = parseExample and pendingData = examplePayload] e
  show ?thesis using i p by (simp add: expired_fields)
qed

text \<open>
  Claim C7. When the POST of a submission fails with \<open>err\<close>, the handler removes the
  waiter registered under the identifier of the submission, disarms its timer and calls
  the \<open>reject\<close> of the caller with the transport error, and that call only; a caller
  that is still pending is thereby failed with the transport error. No other entry of
  the registry changes. Right after \<open>sendRequest\<close> the waiter of the submission is the
  registered one and its caller is pending.
\<close>

theorem postFailed_removes_waiter:
  "pendingRequests (postFailed sub err br) (requestId sub) = None
   \<and> timers (postFailed sub err br) (expiry sub) = None
   \<and> calls (postFailed sub err br) = calls br @ [(caller sub, Rejected (TransportError err))]
   \<and> (promises br (caller sub) = None \<longrightarrow>
        promises (postFailed sub err br) (caller sub) = Some (Rejected (TransportError err)))
   \<and> (\<forall>i. i \<noteq> requestId sub \<longrightarrow>
        pendingRequests (postFailed sub err br) i = pendingRequests br i)
   \<and> (sendRequest request random br0 = (sub, br) \<and> promises br0 (nextPromise br0) = None \<longrightarrow>
        pendingRequests br (requestId sub) = Some \<lparr>promise = caller sub, timeout = expiry sub\<rparr>
        \<and> promises br (caller sub) = None)"
proof -
  have 1: "pendingRequests (postFailed sub err br) (requestId sub) = None"
    by (simp add: postFailed_def settle_def clearTimeout_def Let_def)
  have 2: "timers (postFailed sub err br) (expiry sub) = None"
    by (simp add: postFailed_def settle_def clearTimeout_def Let_def)
  have c: "calls (postFailed sub err br) = calls br @ [(caller sub, Rejected (TransportError err))]"
    by (simp add: postFailed_def settle_def clearTimeout_def Let_def)
  have 3: "promises br (caller sub) = None \<longrightarrow>
        promises (postFailed sub err br) (caller sub) = Some (Rejected (TransportError err))"
    by (simp add: postFailed_def settle_def clearTimeout_def Let_def)
  have 4: "\<forall>i. i \<noteq> requestId sub \<longrightarrow>
        pendingRequests (postFailed sub err br) i = pendingRequests br i"
    by (simp add: postFailed_def settle_def clearTimeout_def Let_def)
  have 5: "sendRequest request random br0 = (sub, br) \<and> promises br0 (nextPromise br0) = None \<longrightarrow>
        pendingRequests br (requestId sub) = Some \<lparr>promise = caller sub, timeout = expiry sub\<rparr>
        \<and> promises br (caller sub) = None"
    by (auto simp: sendRequest_def setTimeout_def Let_def)
  from 1 2 c 3 4 5 show ?thesis by blast
qed

theorem postFailed_removes_waiter_witness:
  "pendingRequests (snd firstSubmission) (IdNumber 1) = Some \<lparr>promise = 0, timeout = 0\<rparr>
   \<and> promises (snd firstSubmission) 0 = None
   \<and> pendingRequests (postFailed (fst firstSubmission) ''ECONNREFUSED'' (snd firstSubmission))
        (IdNumber 1) = None
   \<and> timers (postFailed (fst firstSubmission) ''ECONNREFUSED'' (snd firstSubmission)) 0 = None
   \<and> calls (postFailed (fst firstSubmission) ''ECONNREFUSED'' (snd firstSubmission))
        = [(0, Rejected (TransportError ''ECONNREFUSED''))]
   \<and> promises (postFailed (fst firstSubmission) ''ECONNREFUSED'' (snd firstSubmission)) 0
        = Some (Rejected (TransportError ''ECONNREFUSED''))"
proof -
  have s: "sendRequest (exampleRequest ''path'' (JString ''src/app'')) [] openStream
             = (fst firstSubmission, snd firstSubmission)"
    by (simp add: firstSubmission_def)
  from postFailed_removes_waiter [where sub = "fst firstSubmission" and br = "snd firstSubmission"
      and err = "''ECONNREFUSED''" and br0 = openStream and random = "[]"
      and request = "exampleRequest ''path'' (JString ''src/app'')"] s
  show ?thesis by (simp add: firstSubmission_fields openStream_fields)
qed




section \<open>Properties of the connection manager\<close>

text \<open>\<open>singleReconnect\<close> depends on the timers and on the stored handle only.\<close>

lemma singleReconnect_cong:
  "timers b = timers br \<Longrightarrow> reconnectTimer b = reconnectTimer br \<Longrightarrow>
     singleReconnect b = singleReconnect br"
  by (simp add: singleReconnect_def reconnectArmed_def)

lemma singleReconnect_handleResponse:
  "singleReconnect br \<Longrightarrow> singleReconnect (handleResponse r br)"
  by (auto simp: singleReconnect_def reconnectArmed_def handleResponse_def settle_def
      clearTimeout_def Let_def split: option.splits if_splits)

lemma singleReconnect_dispatchEvent:
  assumes "singleReconnect br"
  shows "singleReconnect (dispatchEvent parse e d br)"
proof -
  let ?br1 = "br\<lparr>emitted := emitted br @ [(e, d)]\<rparr>"
  have l: "singleReconnect ?br1"
    using assms by (simp add: singleReconnect_cong [of ?br1 br])
  have m: "singleReconnect (?br1\<lparr>jbMessageEndpoint := Some d\<rparr>)"
    using assms by (simp add: singleReconnect_cong [of "?br1\<lparr>jbMessageEndpoint := Some d\<rparr>" br])
  have h: "\<And>r. singleReconnect (handleResponse r ?br1)"
    using l by (rule singleReconnect_handleResponse)
  show ?thesis
    unfolding dispatchEvent_def Let_def using l m h by (auto split: option.splits)
qed

lemma singleReconnect_lineStep:
  assumes "singleReconnect (snd st)"
  shows "singleReconnect (snd (lineStep parse l st))"
proof -
  obtain pd pe br where st: "st = ((pd, pe), br)" by (metis surj_pair)
  with assms have "singleReconnect br" by simp
  then show ?thesis
    unfolding st by (simp add: Let_def singleReconnect_dispatchEvent)
qed

lemma singleReconnect_processLoop:
  "singleReconnect (snd st) \<Longrightarrow> singleReconnect (snd (processLoop parse ls st))"
proof (induction ls arbitrary: st)
  case Nil
  then show ?case by (simp add: processLoop_Nil)
next
  case (Cons l ls)
  from Cons.prems have "singleReconnect (snd (lineStep parse l st))"
    by (rule singleReconnect_lineStep)
  then show ?case by (simp add: processLoop_Cons Cons.IH)
qed

lemma singleReconnect_readChunk:
  "singleReconnect br \<Longrightarrow> singleReconnect (readChunk parse chunk br)"
  by (simp add: readChunk_def Let_def processLines_def singleReconnect_processLoop
      singleReconnect_cong [of "br\<lparr>buffer := b\<rparr>" br for b])

text \<open>
  \<open>scheduleReconnect\<close> disarms the stored timer before it arms the new one, so the new
  timer is the only reconnection timer armed afterwards.
\<close>

lemma scheduleReconnect_armed:
  assumes "singleReconnect br"
  shows "reconnectArmed (scheduleReconnect br) t \<longleftrightarrow> t = nextTimer br"
  using assms
  by (auto simp: singleReconnect_def reconnectArmed_def scheduleReconnect_def setTimeout_def
      clearTimeout_def Let_def split: option.splits if_splits timerAction.splits prod.splits)

lemma scheduleReconnect_fields:
  "reconnectTimer (scheduleReconnect br) = Some (nextTimer br)"
  "timers (scheduleReconnect br) (nextTimer br) = Some (Reconnect, 2000)"
  "jbMessageEndpoint (scheduleReconnect br) = jbMessageEndpoint br"
  "reconnectTimer br = Some t \<Longrightarrow> t \<noteq> nextTimer br \<Longrightarrow> timers (scheduleReconnect br) t = None"
  by (auto simp: scheduleReconnect_def setTimeout_def clearTimeout_def Let_def
      split: option.splits)

lemma singleReconnect_scheduleReconnect:
  "singleReconnect br \<Longrightarrow> singleReconnect (scheduleReconnect br)"
  using scheduleReconnect_armed [of br]
  by (simp add: singleReconnect_def [of "scheduleReconnect br"] scheduleReconnect_fields)

lemma singleReconnect_endpoint:
  "singleReconnect (br\<lparr>jbMessageEndpoint := e\<rparr>) = singleReconnect br"
  "singleReconnect (br\<lparr>jbMessageEndpoint := e, isConnecting := c\<rparr>) = singleReconnect br"
  by (simp_all add: singleReconnect_def reconnectArmed_def)

text \<open>Every event keeps the invariant, so it holds in every run.\<close>

lemma singleReconnect_fire:
  assumes "singleReconnect br"
  shows "singleReconnect (fire parse br ev)"
proof (cases ev)
  case Connected
  with assms show ?thesis
    by (simp add: connected_def singleReconnect_def reconnectArmed_def)
next
  case ConnectionError
  with assms show ?thesis
    by (simp add: connectionError_def singleReconnect_scheduleReconnect singleReconnect_endpoint)
next
  case (Chunk chunk)
  with assms show ?thesis by (simp add: singleReconnect_readChunk)
next
  case StreamEnded
  with assms show ?thesis
    by (simp add: streamEnded_def singleReconnect_scheduleReconnect singleReconnect_endpoint)
next
  case (TimerFired t)
  with assms show ?thesis
    by (auto simp: timerFired_def connectStart_def settle_def clearTimeout_def Let_def
        singleReconnect_def reconnectArmed_def
        split: option.splits if_splits timerAction.splits prod.splits)
next
  case (Submit request random)
  with assms show ?thesis
    by (auto simp: sendRequest_def setTimeout_def Let_def singleReconnect_def reconnectArmed_def
        split: option.splits if_splits timerAction.splits prod.splits)
next
  case (PostFailed sub err)
  with assms show ?thesis
    by (auto simp: postFailed_def settle_def clearTimeout_def Let_def singleReconnect_def
        reconnectArmed_def split: option.splits if_splits timerAction.splits prod.splits)
qed

lemma singleReconnect_newBridge: "singleReconnect newBridge"
  by (simp add: newBridge_def connectStart_def singleReconnect_def reconnectArmed_def)

lemma singleReconnect_run: "singleReconnect (run parse evs)"
proof (induction evs rule: rev_induct)
  case Nil
  show ?case by (simp add: run_def singleReconnect_newBridge)
next
  case (snoc ev evs)
  then show ?case by (simp add: run_def singleReconnect_fire)
qed

lemma afterLoss_fields:
  "reconnectTimer afterLoss = Some 0"
  "nextTimer afterLoss = Suc 0"
  "timers afterLoss 0 = Some (Reconnect, 2000)"
  by (simp_all add: afterLoss_def run_def newBridge_def connectStart_def connected_def
      streamEnded_def scheduleReconnect_def setTimeout_def)

text \<open>
  Claim C6. When the stream ends and when the connection fails, the endpoint is set to
  null and a reconnection timer with a delay of 2000 milliseconds is armed and stored;
  a timer stored before is disarmed. In every run the new timer is then the only
  reconnection timer armed, and at no point of a run are two reconnection timers armed.
\<close>

theorem reconnect_after_loss:
  "(jbMessageEndpoint (streamEnded br) = None
      \<and> reconnectTimer (streamEnded br) = Some (nextTimer br)
      \<and> timers (streamEnded br) (nextTimer br) = Some (Reconnect, 2000)
      \<and> (\<forall>t. reconnectTimer br = Some t \<and> t \<noteq> nextTimer br \<longrightarrow> timers (streamEnded br) t = None))
   \<and> (jbMessageEndpoint (connectionError br) = None
      \<and> reconnectTimer (connectionError br) = Some (nextTimer br)
      \<and> timers (connectionError br) (nextTimer br) = Some (Reconnect, 2000)
      \<and> (\<forall>t. reconnectTimer br = Some t \<and> t \<noteq> nextTimer br
            \<longrightarrow> timers (connectionError br) t = None))
   \<and> (\<forall>t. reconnectArmed (streamEnded (run parse evs)) t \<longleftrightarrow> t = nextTimer (run parse evs))
   \<and> (\<forall>t. reconnectArmed (connectionError (run parse evs)) t \<longleftrightarrow> t = nextTimer (run parse evs))
   \<and> (\<forall>t t'. reconnectArmed (run parse evs) t \<and> reconnectArmed (run parse evs) t' \<longrightarrow> t = t')"
proof -
  have 1: "jbMessageEndpoint (streamEnded br) = None
      \<and> reconnectTimer (streamEnded br) = Some (nextTimer br)
      \<and> timers (streamEnded br) (nextTimer br) = Some (Reconnect, 2000)
      \<and> (\<forall>t. reconnectTimer br = Some t \<and> t \<noteq> nextTimer br \<longrightarrow> timers (streamEnded br) t = None)"
    using scheduleReconnect_fields [of "br\<lparr>jbMessageEndpoint := None\<rparr>"]
    by (simp add: streamEnded_def)
  have 2: "jbMessageEndpoint (connectionError br) = None
      \<and> reconnectTimer (connectionError br) = Some (nextTimer br)
      \<and> timers (connectionError br) (nextTimer br) = Some (Reconnect, 2000)
      \<and> (\<forall>t. reconnectTimer br = Some t \<and> t \<noteq> nextTimer br
            \<longrightarrow> timers (connectionError br) t = None)"
    using scheduleReconnect_fields [of "br\<lparr>jbMessageEndpoint := None, isConnecting := False\<rparr>"]
    by (simp add: connectionError_def)
  have inv: "singleReconnect (run parse evs)" by (rule singleReconnect_run)
  have 3: "\<forall>t. reconnectArmed (streamEnded (run parse evs)) t \<longleftrightarrow> t = nextTimer (run parse evs)"
    using inv scheduleReconnect_armed [of "(run parse evs)\<lparr>jbMessageEndpoint := None\<rparr>"]
    by (simp add: streamEnded_def singleReconnect_endpoint)
  have 4: "\<forall>t. reconnectArmed (connectionError (run parse evs)) t \<longleftrightarrow> t = nextTimer (run parse evs)"
    using inv scheduleReconnect_armed
      [of "(run parse evs)\<lparr>jbMessageEndpoint := None, isConnecting := False\<rparr>"]
    by (simp add: connectionError_def singleReconnect_endpoint)
  have 5: "\<forall>t t'. reconnectArmed (run parse evs) t \<and> reconnectArmed (run parse evs) t' \<longrightarrow> t = t'"
    using inv unfolding singleReconnect_def by (metis option.inject)
  from 1 2 3 4 5 show ?thesis by blast
qed

theorem reconnect_after_loss_witness:
  "reconnectTimer afterLoss = Some 0
   \<and> timers afterLoss 0 = Some (Reconnect, 2000)
   \<and> jbMessageEndpoint (connectionError afterLoss) = None
   \<and> reconnectTimer (connectionError afterLoss) = Some 1
   \<and> timers (connectionError afterLoss) 1 = Some (Reconnect, 2000)
   \<and> timers (connectionError afterLoss) 0 = None
   \<and> reconnectArmed afterLoss 0
   \<and> \<not> reconnectArmed afterLoss 1
   \<and> reconnectArmed (streamEnded afterLoss) 1
   \<and> \<not> reconnectArmed (streamEnded afterLoss) 0"
proof -
  have a: "reconnectArmed afterLoss 0"
    by (simp add: reconnectArmed_def afterLoss_fields)
  from reconnect_after_loss [where br = afterLoss and parse = rejectAll
      and evs = "[Connected, StreamEnded]"] a
  show ?thesis
    unfolding afterLoss_def [symmetric] by (auto simp: afterLoss_fields)
qed

end
